theory Spec2Isabelle
  imports Main "HOL-Library.Word"
begin

section \<open>The Raft node of dp/kvstore/core/raft\<close>

text \<open>
  The development embeds the role state machine (statemachine.go) and the consensus
  node (the file holding \<open>Node\<close>, \<open>electionTimeout\<close>, \<open>heatbeatTimeout\<close>,
  \<open>AppendEntries\<close> and \<open>RequestVote\<close>) as functions on explicit state.

  Conventions of the embedding.
  \<^item> Go's \<open>int\<close> is the 64-bit two's complement integer of the usual targets:
    \<open>goint\<close>. \<open>+\<close> wraps as \<open>++\<close> does, and Go's \<open><\<close> and \<open>>\<close> on \<open>int\<close>
    are the signed comparison \<open><s\<close>. Slice lengths and the vote counter are
    \<open>int\<close>: they are bounded by the number of peers, far from the wrap-around.
  \<^item> A \<open>panic\<close> is the \<open>Inl\<close> branch of the result; nobody recovers it.
  \<^item> Every exported operation of the node holds \<open>n.mutex\<close> from entry to exit,
    so each one is a single atomic transformation of the node.
  \<^item> Sending \<open>true\<close> on a timer's \<open>resetC\<close> or \<open>stopC\<close> channel appends the
    signal to the sequence of signals that timer has received.
  \<^item> A remote peer is a handle; what the peer answers to a call of one fan-out
    is given by the environment \<open>rpcenv\<close>. Every call is taken to return.
  \<^item> An election timeout returns, with the node, the effects of its statements in
    program order (\<open>effect\<close>): each write of \<open>currentTerm\<close>, of the role and of
    \<open>votedFor\<close> with the value the field holds after the statement, each send to a
    timer, and each call to a peer. The order of the steps of an election is read there.
  \<^item> Calls of \<open>n.log\<close> and \<open>log.Printf\<close> only print and are left out.
\<close>

type_synonym goint = "64 word"

subsection \<open>statemachine.go\<close>

datatype State = FOLLOWER | CANDIDATE | LEADER

record Statemachine =
  current :: State
  validTransitions :: "State \<rightharpoonup> State list"

datatype panic =
    StateChangeNotAllowed State State
      \<comment> \<open>"State change from %v to %v is not allowed."\<close>
  | ElectionTimeoutAsLeader
      \<comment> \<open>"The election timeout should not happen, when a node is LEADER."\<close>
  | HeartbeatNotLeader
      \<comment> \<open>"sendHeartbeat should only run in LEADER state!"\<close>
  | NilPointerDereference
      \<comment> \<open>the runtime panic of reading through a nil \<open>*Cluster\<close>\<close>

definition NewStatemachine :: Statemachine where
  "NewStatemachine =
     \<lparr> current = FOLLOWER,
       validTransitions =
         Map.empty(FOLLOWER \<mapsto> [CANDIDATE],
                   CANDIDATE \<mapsto> [FOLLOWER, CANDIDATE, LEADER],
                   LEADER \<mapsto> [FOLLOWER]) \<rparr>"

text \<open>The \<open>range\<close> loop of \<open>isValid\<close>: true at the first element equal to \<open>next\<close>.\<close>

fun isValid_loop :: "State list \<Rightarrow> State \<Rightarrow> bool" where
  "isValid_loop [] nxt = False"
| "isValid_loop (v # vs) nxt = (if v = nxt then True else isValid_loop vs nxt)"

text \<open>Reading a Go map at a missing key gives the nil slice, over which the loop does not run.\<close>

definition isValid :: "Statemachine \<Rightarrow> State \<Rightarrow> bool" where
  "isValid s nxt =
     (let nextStates = (case validTransitions s (current s) of None \<Rightarrow> [] | Some l \<Rightarrow> l)
      in isValid_loop nextStates nxt)"

definition Next :: "Statemachine \<Rightarrow> State \<Rightarrow> panic + Statemachine" where
  "Next s nxt =
     (if \<not> isValid s nxt then Inl (StateChangeNotAllowed (current s) nxt)
      else Inr (s\<lparr>current := nxt\<rparr>))"

definition Current :: "Statemachine \<Rightarrow> State" where
  "Current s = current s"

text \<open>
  The transition table as the specification words it: FOLLOWER to CANDIDATE; CANDIDATE
  to FOLLOWER, CANDIDATE or LEADER; LEADER to FOLLOWER.
\<close>

fun spec_legal :: "State \<Rightarrow> State \<Rightarrow> bool" where
  "spec_legal FOLLOWER nxt = (nxt = CANDIDATE)"
| "spec_legal CANDIDATE nxt = True"
| "spec_legal LEADER nxt = (nxt = FOLLOWER)"

subsection \<open>Timers, cluster view and peers\<close>

datatype timersignal = resetC | stopC

type_synonym timercontrol = "timersignal list"

text \<open>
  Modelled from the spec: \<open>createPeriodicTimer\<close> and the timer's goroutine are not in
  src/. The specification says that \<open>reset()\<close> (re)arms the timer, that \<open>stop()\<close>
  disarms it and that a timer is built disarmed: a timer is armed when the last signal
  it received is a reset.
\<close>

definition armed :: "timercontrol \<Rightarrow> bool" where
  "armed t = (case rev t of [] \<Rightarrow> False | sig # _ \<Rightarrow> sig = resetC)"

type_synonym NodeRPC = nat

text \<open>
  The type \<open>Cluster\<close> is not in src/. The node reads its field \<open>allNodes\<close> and calls
  its method \<open>GetRemoteFollowers\<close>, which is taken as a parameter of the cluster.
\<close>

record Cluster =
  allNodes :: "NodeRPC list"
  GetRemoteFollowers :: "goint \<Rightarrow> NodeRPC list"

text \<open>
  Modelled from the spec: the body of \<open>GetRemoteFollowers\<close> is not in src/. The
  specification says that the cluster view holds the peers excluding the node itself and
  that the cluster size N counts the node: the view of node \<open>i\<close> has N - 1 handles.
\<close>

definition clusterViewExcludesSelf :: "Cluster \<Rightarrow> goint \<Rightarrow> bool" where
  "clusterViewExcludesSelf c i =
     (length (GetRemoteFollowers c i) + 1 = length (allNodes c))"

record rpcenv =
  peerRequestVote :: "NodeRPC \<Rightarrow> goint \<Rightarrow> goint \<Rightarrow> goint \<Rightarrow> goint \<Rightarrow> goint \<times> bool"
  peerAppendEntries ::
    "NodeRPC \<Rightarrow> goint \<Rightarrow> goint \<Rightarrow> goint \<Rightarrow> goint \<Rightarrow> string list option \<Rightarrow> goint
       \<Rightarrow> goint \<times> bool"

text \<open>The calls a fan-out issues, with their arguments, in the order of the peer list.\<close>

datatype rpccall =
    RequestVoteCall NodeRPC goint goint goint goint
  | AppendEntriesCall NodeRPC goint goint goint goint "string list option" goint

text \<open>
  The effects of the statements of an election, in program order: a write records the
  value of the field after the statement.
\<close>

datatype effect =
    WriteCurrentTerm goint
  | WriteRole State
  | WriteVotedFor "goint option"
  | SendElectionTimer timersignal
  | SendHeartbeatTimer timersignal
  | Call rpccall

subsection \<open>The node\<close>

text \<open>
  \<open>votedFor\<close> is a \<open>*int\<close> that the code only assigns and compares with nil; it
  points either at the node's own \<open>id\<close>, which never changes, or at a parameter of
  \<open>RequestVote\<close>. The type \<open>ReplicatedLog\<close> is not in src/ and is a type parameter.
  \<open>cluster\<close> is nil until \<open>Start\<close>.
\<close>

record 'l Node =
  id_node :: goint
  statemachine :: Statemachine
  replicatedLog :: 'l
  electionTimer :: timercontrol
  heartbeatTimer :: timercontrol
  currentTerm :: goint
  votedFor :: "goint option"
  cluster :: "Cluster option"
  stopped :: bool

text \<open>\<open>NewNode\<close>; the value of \<open>NewReplicatedLog()\<close> is a parameter.\<close>

definition NewNode :: "goint \<Rightarrow> 'l \<Rightarrow> 'l Node" where
  "NewNode i newReplicatedLog =
     \<lparr> id_node = i,
       statemachine = NewStatemachine,
       replicatedLog = newReplicatedLog,
       electionTimer = [],
       heartbeatTimer = [],
       currentTerm = 0,
       votedFor = None,
       cluster = None,
       stopped = False \<rparr>"

text \<open>
  Modelled from the spec: \<open>isLeader\<close>, \<open>isNotLeader\<close> and \<open>isCandidate\<close> are not in
  src/. The specification reads them as tests of the current role: the election timeout
  is fatal if the role is LEADER, the heartbeat is fatal if the role is not LEADER, and a
  node that is currently CANDIDATE or LEADER reverts to FOLLOWER.
\<close>

definition isLeader :: "'l Node \<Rightarrow> bool" where
  "isLeader n = (Current (statemachine n) = LEADER)"

definition isNotLeader :: "'l Node \<Rightarrow> bool" where
  "isNotLeader n = (Current (statemachine n) \<noteq> LEADER)"

definition isCandidate :: "'l Node \<Rightarrow> bool" where
  "isCandidate n = (Current (statemachine n) = CANDIDATE)"

text \<open>\<open>n.statemachine.Next(next)\<close>: the node with its state machine advanced.\<close>

definition statemachine_Next :: "'l Node \<Rightarrow> State \<Rightarrow> panic + 'l Node" where
  "statemachine_Next n nxt =
     (case Next (statemachine n) nxt of
        Inl e \<Rightarrow> Inl e
      | Inr s \<Rightarrow> Inr (n\<lparr>statemachine := s\<rparr>))"

definition Start :: "'l Node \<Rightarrow> Cluster \<Rightarrow> 'l Node" where
  "Start n c =
     (let n1 = n\<lparr>stopped := False\<rparr>;
          n2 = n1\<lparr>cluster := Some c\<rparr>
      in n2\<lparr>electionTimer := electionTimer n2 @ [resetC]\<rparr>)"

definition Stop :: "'l Node \<Rightarrow> panic + 'l Node" where
  "Stop n =
     (let n1 = n\<lparr>stopped := True\<rparr>;
          n2 = n1\<lparr>heartbeatTimer := heartbeatTimer n1 @ [stopC]\<rparr>;
          n3 = n2\<lparr>electionTimer := electionTimer n2 @ [stopC]\<rparr>
      in statemachine_Next n3 FOLLOWER)"

subsection \<open>Election\<close>

text \<open>The counting loop of \<open>executeElection\<close>, from \<open>nbrOfVotes\<close>.\<close>

fun countVotes :: "bool list \<Rightarrow> int \<Rightarrow> int" where
  "countVotes [] nbrOfVotes = nbrOfVotes"
| "countVotes (vote # votes) nbrOfVotes =
     countVotes votes (if vote then nbrOfVotes + 1 else nbrOfVotes)"

text \<open>
  The body of one goroutine of the fan-out: the value it stores in \<open>votes[i]\<close>. The
  branch for a greater term is empty in the source.
\<close>

definition voteOf :: "'l Node \<Rightarrow> goint \<times> bool \<Rightarrow> bool" where
  "voteOf n reply =
     (case reply of (term, ok) \<Rightarrow> if currentTerm n <s term then ok else ok)"

text \<open>
  \<open>executeElection\<close> yields the node, \<open>electionWon\<close> and its effects: the write of
  \<open>votedFor\<close>, then the calls it issued. The goroutines write disjoint cells of
  \<open>votes\<close> and \<open>wg.Wait()\<close> joins them all, so \<open>votes\<close> is the list of their
  results. Go's \<open>/\<close> on the non-negative length is \<open>div\<close>.
\<close>

definition executeElection ::
  "rpcenv \<Rightarrow> 'l Node \<Rightarrow> panic + ('l Node \<times> bool \<times> effect list)" where
  "executeElection env n0 =
     (let n = n0\<lparr>votedFor := Some (id_node n0)\<rparr> in
      case cluster n of
        None \<Rightarrow> Inl NilPointerDereference
      | Some c \<Rightarrow>
          (let nodes = GetRemoteFollowers c (id_node n);
               calls = map (\<lambda>rpcIf. RequestVoteCall rpcIf (currentTerm n) (id_node n) 0 0) nodes;
               votes = map (\<lambda>rpcIf.
                          voteOf n (peerRequestVote env rpcIf (currentTerm n) (id_node n) 0 0))
                        nodes;
               nbrOfVotes = countVotes votes 1;
               electionWon = (nbrOfVotes \<ge> int (length (allNodes c)) div 2 + 1)
           in Inr (n, electionWon, WriteVotedFor (votedFor n) # map Call calls)))"

definition switchToLeader :: "'l Node \<Rightarrow> panic + ('l Node \<times> effect list)" where
  "switchToLeader n =
     (case statemachine_Next n LEADER of
        Inl e \<Rightarrow> Inl e
      | Inr n1 \<Rightarrow>
          (let n2 = n1\<lparr>heartbeatTimer := heartbeatTimer n1 @ [resetC]\<rparr>;
               n3 = n2\<lparr>electionTimer := electionTimer n2 @ [stopC]\<rparr>
           in Inr (n3, [WriteRole (Current (statemachine n1)),
                        SendHeartbeatTimer resetC,
                        SendElectionTimer stopC])))"

definition startElectionProcess ::
  "rpcenv \<Rightarrow> 'l Node \<Rightarrow> panic + ('l Node \<times> effect list)" where
  "startElectionProcess env n =
     (let n1 = n\<lparr>currentTerm := currentTerm n + 1\<rparr> in
      case statemachine_Next n1 CANDIDATE of
        Inl e \<Rightarrow> Inl e
      | Inr n2 \<Rightarrow>
          (let n3 = n2\<lparr>votedFor := None\<rparr>;
               effects = [WriteCurrentTerm (currentTerm n1),
                          WriteRole (Current (statemachine n2)),
                          WriteVotedFor (votedFor n3)]
           in
           case executeElection env n3 of
             Inl e \<Rightarrow> Inl e
           | Inr (n4, electionWon, effectsElection) \<Rightarrow>
               if electionWon then
                 (case switchToLeader n4 of
                    Inl e \<Rightarrow> Inl e
                  | Inr (n5, effectsLeader) \<Rightarrow>
                      Inr (n5, effects @ effectsElection @ effectsLeader))
               else
                 (case statemachine_Next n4 FOLLOWER of
                    Inl e \<Rightarrow> Inl e
                  | Inr n5 \<Rightarrow>
                      Inr (n5\<lparr>electionTimer := electionTimer n5 @ [resetC]\<rparr>,
                           effects @ effectsElection
                             @ [WriteRole (Current (statemachine n5)),
                                SendElectionTimer resetC]))))"

definition electionTimeout ::
  "rpcenv \<Rightarrow> 'l Node \<Rightarrow> panic + ('l Node \<times> effect list)" where
  "electionTimeout env n =
     (if stopped n then Inr (n, [])
      else if isLeader n then Inl ElectionTimeoutAsLeader
      else startElectionProcess env n)"

subsection \<open>Heartbeat\<close>

definition switchToFollower :: "'l Node \<Rightarrow> panic + 'l Node" where
  "switchToFollower n =
     (if isLeader n then
        statemachine_Next (n\<lparr>heartbeatTimer := heartbeatTimer n @ [stopC]\<rparr>) FOLLOWER
      else if isCandidate n then statemachine_Next n FOLLOWER
      else Inr n)"

text \<open>
  The loop of \<open>heatbeatTimeout\<close>. Its function literal is called without \<open>go\<close>, so the
  peers are called one after the other, each seeing the node as the previous iteration
  left it. The slice \<open>result\<close> is written and never read.
\<close>

fun heartbeat_loop ::
  "rpcenv \<Rightarrow> 'l Node \<Rightarrow> NodeRPC list \<Rightarrow> panic + ('l Node \<times> rpccall list)" where
  "heartbeat_loop env n [] = Inr (n, [])"
| "heartbeat_loop env n (nodeRPC # rest) =
     (case peerAppendEntries env nodeRPC (currentTerm n) (id_node n) 0 0 None 0 of
        (term, ok) \<Rightarrow>
          (case (if currentTerm n <s term then switchToFollower n else Inr n) of
             Inl e \<Rightarrow> Inl e
           | Inr n1 \<Rightarrow>
               (case heartbeat_loop env n1 rest of
                  Inl e \<Rightarrow> Inl e
                | Inr (n2, calls) \<Rightarrow>
                    Inr (n2, AppendEntriesCall nodeRPC (currentTerm n) (id_node n) 0 0 None 0
                               # calls))))"

definition heatbeatTimeout ::
  "rpcenv \<Rightarrow> 'l Node \<Rightarrow> panic + ('l Node \<times> rpccall list)" where
  "heatbeatTimeout env n =
     (if stopped n then Inr (n, [])
      else if isNotLeader n then Inl HeartbeatNotLeader
      else
        (case cluster n of
           None \<Rightarrow> Inl NilPointerDereference
         | Some c \<Rightarrow> heartbeat_loop env n (GetRemoteFollowers c (id_node n))))"

subsection \<open>The RPC handlers\<close>

text \<open>
  The end of \<open>AppendEntries\<close>, from the test of \<open>entries\<close>: a nil slice is \<open>None\<close>.
  The branch for a non-empty \<open>entries\<close> only prints.
\<close>

definition AppendEntries_deliver ::
  "'l Node \<Rightarrow> string list option \<Rightarrow> panic + ('l Node \<times> goint \<times> bool)" where
  "AppendEntries_deliver n entries =
     (if entries = None \<or> length (case entries of None \<Rightarrow> [] | Some es \<Rightarrow> es) = 0 then
        (let n1 = n\<lparr>electionTimer := electionTimer n @ [resetC]\<rparr>
         in Inr (n1, currentTerm n1, True))
      else Inr (n, currentTerm n, True))"

definition AppendEntries ::
  "'l Node \<Rightarrow> goint \<Rightarrow> goint \<Rightarrow> goint \<Rightarrow> goint \<Rightarrow> string list option \<Rightarrow> goint
     \<Rightarrow> panic + ('l Node \<times> goint \<times> bool)" where
  "AppendEntries n term leaderID prevLogIndex prevLogTermin entries leaderCommit =
     (if stopped n then Inr (n, currentTerm n, False)
      else if term <s currentTerm n then Inr (n, currentTerm n, False)
      else if currentTerm n <s term then
        (let n1 = n\<lparr>currentTerm := term\<rparr> in
         if isLeader n1 \<or> isCandidate n1 then
           (case switchToFollower n1 of
              Inl e \<Rightarrow> Inl e
            | Inr n2 \<Rightarrow> Inr (n2, currentTerm n2, False))
         else AppendEntries_deliver n1 entries)
      else AppendEntries_deliver n entries)"

definition RequestVote ::
  "'l Node \<Rightarrow> goint \<Rightarrow> goint \<Rightarrow> goint \<Rightarrow> goint \<Rightarrow> panic + ('l Node \<times> goint \<times> bool)" where
  "RequestVote n term candidateID lastLogIndex lastLogTerm =
     (if stopped n then Inr (n, currentTerm n, False)
      else
        (let n1 = n\<lparr>electionTimer := electionTimer n @ [resetC]\<rparr> in
         if term <s currentTerm n1 then Inr (n1, currentTerm n1, False)
         else if votedFor n1 \<noteq> None \<and> term = currentTerm n1 then
           Inr (n1, currentTerm n1, False)
         else
           (case (if currentTerm n1 <s term then
                    (let n2 = n1\<lparr>currentTerm := term\<rparr> in
                     if isCandidate n2 \<or> isLeader n2 then switchToFollower n2 else Inr n2)
                  else Inr n1) of
              Inl e \<Rightarrow> Inl e
            | Inr n3 \<Rightarrow>
                (let n4 = n3\<lparr>votedFor := Some candidateID\<rparr>
                 in Inr (n4, currentTerm n4, True)))))"

subsection \<open>Runs of a node\<close>

text \<open>
  What can happen to a node, one operation at a time under its mutex: an RPC arrives, a
  timer fires (with the answers the peers give to that fan-out), or the node is started or
  stopped. \<open>deliver\<close> keeps the node and drops the reply; \<open>run\<close> stops at the first
  panic. \<open>wraps\<close> says that some election of the run increments the largest \<open>int\<close>.
\<close>

datatype event =
    EvRequestVote goint goint goint goint
  | EvAppendEntries goint goint goint goint "string list option" goint
  | EvElectionTimeout rpcenv
  | EvHeartbeatTimeout rpcenv
  | EvStart Cluster
  | EvStop

fun deliver :: "'l Node \<Rightarrow> event \<Rightarrow> panic + 'l Node" where
  "deliver n (EvRequestVote t c i l) = map_sum id fst (RequestVote n t c i l)"
| "deliver n (EvAppendEntries t ld i p es lc) = map_sum id fst (AppendEntries n t ld i p es lc)"
| "deliver n (EvElectionTimeout env) = map_sum id fst (electionTimeout env n)"
| "deliver n (EvHeartbeatTimeout env) = map_sum id fst (heatbeatTimeout env n)"
| "deliver n (EvStart c) = Inr (Start n c)"
| "deliver n EvStop = Stop n"

fun termIncrementWraps :: "'l Node \<Rightarrow> event \<Rightarrow> bool" where
  "termIncrementWraps n (EvElectionTimeout env) =
     (\<not> stopped n \<and> sint (currentTerm n) = 2 ^ 63 - 1)"
| "termIncrementWraps n e = False"

fun run :: "'l Node \<Rightarrow> event list \<Rightarrow> panic + 'l Node" where
  "run n [] = Inr n"
| "run n (e # es) = (case deliver n e of Inl p \<Rightarrow> Inl p | Inr n' \<Rightarrow> run n' es)"

fun wraps :: "'l Node \<Rightarrow> event list \<Rightarrow> bool" where
  "wraps n [] = False"
| "wraps n (e # es) =
     (termIncrementWraps n e \<or> (case deliver n e of Inl p \<Rightarrow> False | Inr n' \<Rightarrow> wraps n' es))"

text \<open>The node holds a vote and its term is not below \<open>T\<close>.\<close>

definition votedAtOrBefore :: "'l Node \<Rightarrow> goint \<Rightarrow> bool" where
  "votedAtOrBefore n T = (votedFor n \<noteq> None \<and> \<not> currentTerm n <s T)"

subsection \<open>Notions of the specification and sample inputs\<close>

text \<open>
  The grants of a round as the specification counts them: the self-vote plus the peers
  of the cluster view whose reply to the candidate's request grants.
\<close>

definition spec_grants :: "rpcenv \<Rightarrow> 'l Node \<Rightarrow> Cluster \<Rightarrow> int" where
  "spec_grants env n c =
     1 + int (length (filter
                (\<lambda>rpcIf. snd (peerRequestVote env rpcIf (currentTerm n) (id_node n) 0 0))
                (GetRemoteFollowers c (id_node n))))"

text \<open>A peer whose reply to the leader's heartbeat reports a term greater than the leader's.\<close>

definition reportsGreaterTerm :: "rpcenv \<Rightarrow> 'l Node \<Rightarrow> NodeRPC \<Rightarrow> bool" where
  "reportsGreaterTerm env n h =
     (currentTerm n <s fst (peerAppendEntries env h (currentTerm n) (id_node n) 0 0 None 0))"

text \<open>The heartbeat calls of a leader to a list of peers.\<close>

definition heartbeatCalls :: "'l Node \<Rightarrow> NodeRPC list \<Rightarrow> rpccall list" where
  "heartbeatCalls n hs =
     map (\<lambda>h. AppendEntriesCall h (currentTerm n) (id_node n) 0 0 None 0) hs"

text \<open>
  Sample inputs: a cluster of three nodes seen from each of them, a cluster of one node,
  node 0 started in either, peers of which handle 1 grants its vote while reporting
  a greater term and handle 2 answers a heartbeat with a greater term, the same peers
  reporting the caller's term, and peers that deny everything.
\<close>

definition exampleCluster :: Cluster where
  "exampleCluster =
     \<lparr> allNodes = [0, 1, 2],
       GetRemoteFollowers =
         (\<lambda>i. if i = 0 then [1, 2] else if i = 1 then [0, 2] else [0, 1]) \<rparr>"

definition singleCluster :: Cluster where
  "singleCluster = \<lparr> allNodes = [0], GetRemoteFollowers = (\<lambda>i. []) \<rparr>"

definition exampleNode :: "unit Node" where
  "exampleNode = Start (NewNode 0 ()) exampleCluster"

definition singleNode :: "unit Node" where
  "singleNode = Start (NewNode 0 ()) singleCluster"

definition exampleLeader :: "unit Node" where
  "exampleLeader =
     exampleNode\<lparr> statemachine := NewStatemachine\<lparr>current := LEADER\<rparr>,
                  electionTimer := [resetC, stopC],
                  heartbeatTimer := [resetC],
                  currentTerm := 1,
                  votedFor := Some 0 \<rparr>"

definition exampleVoted :: "unit Node" where
  "exampleVoted =
     exampleNode\<lparr> electionTimer := [resetC, resetC], currentTerm := 3, votedFor := Some 1 \<rparr>"

definition exampleLater :: "unit Node" where
  "exampleLater =
     exampleNode\<lparr> electionTimer := [resetC, resetC, resetC, resetC], currentTerm := 7,
                  votedFor := Some 0 \<rparr>"

definition exampleVotedMax :: "unit Node" where
  "exampleVotedMax =
     exampleNode\<lparr> electionTimer := [resetC, resetC], currentTerm := 9223372036854775807,
                  votedFor := Some 1 \<rparr>"

definition exampleWrapped :: "unit Node" where
  "exampleWrapped =
     exampleNode\<lparr> electionTimer := [resetC, resetC, resetC],
                  currentTerm := 9223372036854775807 + 1,
                  votedFor := Some 0 \<rparr>"

definition exampleEnv :: rpcenv where
  "exampleEnv =
     \<lparr> peerRequestVote =
         (\<lambda>h t c i l. if h = 1 then (t + 1, True) else (t, False)),
       peerAppendEntries =
         (\<lambda>h t l i p es lc. if h = 2 then (t + 1, False) else (t, True)) \<rparr>"

definition denyingEnv :: rpcenv where
  "denyingEnv =
     \<lparr> peerRequestVote = (\<lambda>h t c i l. (t, False)),
       peerAppendEntries = (\<lambda>h t l i p es lc. (t, False)) \<rparr>"

definition equalTermEnv :: rpcenv where
  "equalTermEnv =
     \<lparr> peerRequestVote = (\<lambda>h t c i l. (t, h = 1)),
       peerAppendEntries = (\<lambda>h t l i p es lc. (t, True)) \<rparr>"

section \<open>The role state machine\<close>

lemma isValid_loop_mem: "isValid_loop vs nxt = (nxt \<in> set vs)"
  by (induction vs) auto

lemma isValid_table:
  "validTransitions s = validTransitions NewStatemachine \<Longrightarrow>
   isValid s nxt = spec_legal (current s) nxt"
  by (cases "current s"; cases nxt)
     (simp_all add: isValid_def NewStatemachine_def)

text \<open>
  Claim C4. \<open>NewStatemachine\<close> builds the table and nothing assigns
  \<open>validTransitions\<close> afterwards. On a state machine carrying that table, \<open>Next\<close>
  stores \<open>next\<close> and changes nothing else exactly when the pair (current, next) is in
  the table of the specification, and panics for every other pair; so a caller that only
  asks for table transitions never reaches the panic.
\<close>

theorem Next_follows_table:
  assumes "validTransitions s = validTransitions NewStatemachine"
  shows "Next s nxt =
           (if spec_legal (current s) nxt then Inr (s\<lparr>current := nxt\<rparr>)
            else Inl (StateChangeNotAllowed (current s) nxt))"
  using isValid_table [OF assms] by (simp add: Next_def)

theorem Next_follows_table_witness:
  "validTransitions NewStatemachine = validTransitions NewStatemachine
   \<and> Next NewStatemachine CANDIDATE = Inr (NewStatemachine\<lparr>current := CANDIDATE\<rparr>)
   \<and> Next NewStatemachine LEADER = Inl (StateChangeNotAllowed FOLLOWER LEADER)"
  using Next_follows_table [of NewStatemachine CANDIDATE]
        Next_follows_table [of NewStatemachine LEADER]
  by (simp add: NewStatemachine_def)

section \<open>Sample inputs\<close>

lemma exampleNode_eq:
  "exampleNode =
     \<lparr> id_node = 0, statemachine = NewStatemachine, replicatedLog = (),
       electionTimer = [resetC], heartbeatTimer = [], currentTerm = 0, votedFor = None,
       cluster = Some exampleCluster, stopped = False \<rparr>"
  by (simp add: exampleNode_def Start_def NewNode_def)

lemma singleNode_eq:
  "singleNode =
     \<lparr> id_node = 0, statemachine = NewStatemachine, replicatedLog = (),
       electionTimer = [resetC], heartbeatTimer = [], currentTerm = 0, votedFor = None,
       cluster = Some singleCluster, stopped = False \<rparr>"
  by (simp add: singleNode_def Start_def NewNode_def)

lemma exampleLeader_eq:
  "exampleLeader =
     \<lparr> id_node = 0, statemachine = NewStatemachine\<lparr>current := LEADER\<rparr>, replicatedLog = (),
       electionTimer = [resetC, stopC], heartbeatTimer = [resetC], currentTerm = 1,
       votedFor = Some 0, cluster = Some exampleCluster, stopped = False \<rparr>"
  by (simp add: exampleLeader_def exampleNode_eq)

lemma exampleVoted_eq:
  "exampleVoted =
     \<lparr> id_node = 0, statemachine = NewStatemachine, replicatedLog = (),
       electionTimer = [resetC, resetC], heartbeatTimer = [], currentTerm = 3,
       votedFor = Some 1, cluster = Some exampleCluster, stopped = False \<rparr>"
  by (simp add: exampleVoted_def exampleNode_eq)

section \<open>Helper facts\<close>

lemma sless_antisym: "\<not> a <s b \<Longrightarrow> \<not> b <s a \<Longrightarrow> a = (b::goint)"
  using signed.not_less_iff_gr_or_eq by blast

lemma sint_succ:
  assumes "sint (x::goint) < 2 ^ 63 - 1"
  shows "sint (x + 1) = sint x + 1"
proof -
  have lo: "- (2 ^ 63) \<le> sint x" using sint_ge [of x] by simp
  have "sint (x + 1) = signed_take_bit 63 (sint x + 1)"
    by (simp add: sint_word_ariths)
  also have "\<dots> = sint x + 1"
    using assms lo by (intro signed_take_bit_int_eq_self) simp_all
  finally show ?thesis .
qed

lemma statemachine_Next_ok:
  assumes "validTransitions (statemachine n) = validTransitions NewStatemachine"
      and "spec_legal (current (statemachine n)) nxt"
  shows "statemachine_Next n nxt = Inr (n\<lparr>statemachine := (statemachine n)\<lparr>current := nxt\<rparr>\<rparr>)"
  using isValid_table [OF assms(1), of nxt] assms(2)
  by (simp add: statemachine_Next_def Next_def)

lemma statemachine_Next_bad:
  assumes "validTransitions (statemachine n) = validTransitions NewStatemachine"
      and "\<not> spec_legal (current (statemachine n)) nxt"
  shows "statemachine_Next n nxt = Inl (StateChangeNotAllowed (current (statemachine n)) nxt)"
  using isValid_table [OF assms(1), of nxt] assms(2)
  by (simp add: statemachine_Next_def Next_def)

lemma switchToFollower_leader:
  assumes "validTransitions (statemachine n) = validTransitions NewStatemachine"
      and "current (statemachine n) = LEADER"
  shows "switchToFollower n =
           Inr (n\<lparr>heartbeatTimer := heartbeatTimer n @ [stopC],
                  statemachine := (statemachine n)\<lparr>current := FOLLOWER\<rparr>\<rparr>)"
  using assms statemachine_Next_ok [of "n\<lparr>heartbeatTimer := heartbeatTimer n @ [stopC]\<rparr>" FOLLOWER]
  by (simp add: switchToFollower_def isLeader_def Current_def)

lemma switchToFollower_follower:
  assumes "current (statemachine n) = FOLLOWER"
  shows "switchToFollower n = Inr n"
  using assms by (simp add: switchToFollower_def isLeader_def isCandidate_def Current_def)

lemma switchToFollower_frame:
  assumes "switchToFollower n = Inr n'"
  shows "currentTerm n' = currentTerm n \<and> votedFor n' = votedFor n \<and> stopped n' = stopped n
         \<and> electionTimer n' = electionTimer n \<and> id_node n' = id_node n"
  using assms
  by (auto simp: switchToFollower_def statemachine_Next_def split: if_splits sum.splits)

section \<open>The table of a node is the one of \<open>NewStatemachine\<close>\<close>

text \<open>
  No operation assigns \<open>validTransitions\<close>: whatever happens to a node built by
  \<open>NewNode\<close>, its state machine carries the table of \<open>NewStatemachine\<close>. This is
  the hypothesis on the table in the theorems below.
\<close>

lemma statemachine_Next_table:
  assumes "statemachine_Next n nxt = Inr n'"
  shows "validTransitions (statemachine n') = validTransitions (statemachine n)"
  using assms by (auto simp: statemachine_Next_def Next_def split: sum.splits if_splits)

lemma switchToFollower_table:
  assumes "switchToFollower n = Inr n'"
  shows "validTransitions (statemachine n') = validTransitions (statemachine n)"
  using assms
  by (auto simp: switchToFollower_def split: if_splits dest!: statemachine_Next_table)

lemma heartbeat_loop_table:
  assumes "heartbeat_loop env n hs = Inr (n', calls)"
  shows "validTransitions (statemachine n') = validTransitions (statemachine n)"
  using assms
proof (induction hs arbitrary: n calls)
  case Nil
  then show ?case by simp
next
  case (Cons h hs)
  obtain t ok where r: "peerAppendEntries env h (currentTerm n) (id_node n) 0 0 None 0 = (t, ok)"
    by (cases "peerAppendEntries env h (currentTerm n) (id_node n) 0 0 None 0")
  from Cons.prems r obtain n1 calls1 where
    s: "(if currentTerm n <s t then switchToFollower n else Inr n) = Inr n1"
    and l: "heartbeat_loop env n1 hs = Inr (n', calls1)"
    by (auto split: sum.splits)
  from s have "validTransitions (statemachine n1) = validTransitions (statemachine n)"
    by (auto split: if_splits dest!: switchToFollower_table)
  with Cons.IH [OF l] show ?case by simp
qed

lemma startElectionProcess_table:
  assumes "startElectionProcess env n = Inr (n', calls)"
  shows "validTransitions (statemachine n') = validTransitions (statemachine n)"
  using assms
  by (auto simp: startElectionProcess_def executeElection_def switchToLeader_def Let_def
           split: sum.splits if_splits option.splits dest!: statemachine_Next_table)

lemma deliver_table:
  assumes "deliver n e = Inr n'"
  shows "validTransitions (statemachine n') = validTransitions (statemachine n)"
proof (cases e)
  case (EvRequestVote t c i l)
  with assms show ?thesis
    by (cases "RequestVote n t c i l")
       (auto simp: RequestVote_def Let_def split: if_splits sum.splits
             dest!: switchToFollower_table)
next
  case (EvAppendEntries t ld i p es lc)
  with assms show ?thesis
    by (cases "AppendEntries n t ld i p es lc")
       (auto simp: AppendEntries_def AppendEntries_deliver_def Let_def
             split: if_splits sum.splits dest!: switchToFollower_table)
next
  case (EvElectionTimeout env)
  with assms show ?thesis
    by (cases "electionTimeout env n")
       (auto simp: electionTimeout_def split: if_splits dest!: startElectionProcess_table)
next
  case (EvHeartbeatTimeout env)
  with assms show ?thesis
    by (cases "heatbeatTimeout env n")
       (auto simp: heatbeatTimeout_def split: if_splits option.splits
             dest!: heartbeat_loop_table)
next
  case (EvStart c)
  with assms show ?thesis by (auto simp: Start_def Let_def)
next
  case EvStop
  with assms show ?thesis
    by (auto simp: Stop_def Let_def dest!: statemachine_Next_table)
qed

lemma run_table:
  assumes "run n es = Inr n'"
  shows "validTransitions (statemachine n') = validTransitions (statemachine n)"
  using assms
proof (induction es arbitrary: n)
  case Nil
  then show ?case by simp
next
  case (Cons e es)
  from Cons.prems obtain n1 where d: "deliver n e = Inr n1" and r: "run n1 es = Inr n'"
    by (auto split: sum.splits)
  from deliver_table [OF d] Cons.IH [OF r] show ?case by simp
qed

lemma reachable_node_carries_table:
  assumes "run (NewNode i l) es = Inr n"
  shows "validTransitions (statemachine n) = validTransitions NewStatemachine"
  using run_table [OF assms] by (simp add: NewNode_def)

section \<open>Election\<close>

lemma countVotes_filter: "countVotes votes k = k + int (length (filter (\<lambda>v. v) votes))"
  by (induction votes arbitrary: k) auto

lemma voteOf_snd: "voteOf n reply = snd reply"
  by (cases reply) (simp add: voteOf_def)

lemma executeElection_eq:
  assumes "cluster n = Some c"
  shows "executeElection env n =
           Inr (n\<lparr>votedFor := Some (id_node n)\<rparr>,
                int (length (allNodes c)) div 2 + 1 \<le> spec_grants env n c,
                WriteVotedFor (Some (id_node n))
                  # map (\<lambda>rpcIf. Call (RequestVoteCall rpcIf (currentTerm n) (id_node n) 0 0))
                        (GetRemoteFollowers c (id_node n)))"
  using assms
  by (simp add: executeElection_def Let_def countVotes_filter voteOf_snd spec_grants_def
                filter_map comp_def)

lemma not_leader_may_stand:
  assumes "\<not> isLeader n"
  shows "spec_legal (current (statemachine n)) CANDIDATE"
  using assms by (cases "current (statemachine n)") (simp_all add: isLeader_def Current_def)

lemma startElectionProcess_eq:
  assumes "\<not> isLeader n"
      and "validTransitions (statemachine n) = validTransitions NewStatemachine"
      and "cluster n = Some c"
  shows "startElectionProcess env n =
           (let cand = n\<lparr>currentTerm := currentTerm n + 1,
                          statemachine := (statemachine n)\<lparr>current := CANDIDATE\<rparr>,
                          votedFor := Some (id_node n)\<rparr>;
                steps = [WriteCurrentTerm (currentTerm n + 1), WriteRole CANDIDATE,
                         WriteVotedFor None, WriteVotedFor (Some (id_node n))];
                requests =
                  map (\<lambda>rpcIf. Call (RequestVoteCall rpcIf (currentTerm n + 1) (id_node n) 0 0))
                      (GetRemoteFollowers c (id_node n))
            in if int (length (allNodes c)) div 2 + 1 \<le> spec_grants env cand c
               then Inr (cand\<lparr>statemachine := (statemachine n)\<lparr>current := LEADER\<rparr>,
                               heartbeatTimer := heartbeatTimer n @ [resetC],
                               electionTimer := electionTimer n @ [stopC]\<rparr>,
                         steps @ requests
                           @ [WriteRole LEADER, SendHeartbeatTimer resetC,
                              SendElectionTimer stopC])
               else Inr (cand\<lparr>statemachine := (statemachine n)\<lparr>current := FOLLOWER\<rparr>,
                               electionTimer := electionTimer n @ [resetC]\<rparr>,
                         steps @ requests @ [WriteRole FOLLOWER, SendElectionTimer resetC]))"
proof -
  let ?n1 = "n\<lparr>currentTerm := currentTerm n + 1\<rparr>"
  let ?n2 = "?n1\<lparr>statemachine := (statemachine n)\<lparr>current := CANDIDATE\<rparr>\<rparr>"
  let ?requests =
    "map (\<lambda>rpcIf. Call (RequestVoteCall rpcIf (currentTerm n + 1) (id_node n) 0 0))
         (GetRemoteFollowers c (id_node n))"
  have s1: "statemachine_Next ?n1 CANDIDATE = Inr ?n2"
    using statemachine_Next_ok [of ?n1 CANDIDATE] assms(2) not_leader_may_stand [OF assms(1)]
    by simp
  have s2: "executeElection env (?n2\<lparr>votedFor := None\<rparr>) =
              Inr (?n2\<lparr>votedFor := Some (id_node n)\<rparr>,
                   int (length (allNodes c)) div 2 + 1
                     \<le> spec_grants env (?n2\<lparr>votedFor := None\<rparr>) c,
                   WriteVotedFor (Some (id_node n)) # ?requests)"
    using executeElection_eq [of "?n2\<lparr>votedFor := None\<rparr>" c env] assms(3) by simp
  have g: "spec_grants env (?n2\<lparr>votedFor := None\<rparr>) c
             = spec_grants env (?n2\<lparr>votedFor := Some (id_node n)\<rparr>) c"
    by (simp add: spec_grants_def)
  have s3: "statemachine_Next (?n2\<lparr>votedFor := Some (id_node n)\<rparr>) LEADER
              = Inr (?n2\<lparr>votedFor := Some (id_node n),
                          statemachine := (statemachine n)\<lparr>current := LEADER\<rparr>\<rparr>)"
    using statemachine_Next_ok [of "?n2\<lparr>votedFor := Some (id_node n)\<rparr>" LEADER] assms(2)
    by simp
  have s4: "statemachine_Next (?n2\<lparr>votedFor := Some (id_node n)\<rparr>) FOLLOWER
              = Inr (?n2\<lparr>votedFor := Some (id_node n),
                          statemachine := (statemachine n)\<lparr>current := FOLLOWER\<rparr>\<rparr>)"
    using statemachine_Next_ok [of "?n2\<lparr>votedFor := Some (id_node n)\<rparr>" FOLLOWER] assms(2)
    by simp
  show ?thesis
    by (simp add: startElectionProcess_def s1 s2 g s3 s4 switchToLeader_def Let_def
                  Current_def)
qed

text \<open>
  Claim C1. A round of \<open>executeElection\<close> on a started node is won if and only if the
  grants, the self-vote plus the peers of the cluster view whose reply granted, are at
  least N div 2 + 1, where N is the length of \<open>allNodes\<close>, the cluster with the node
  itself. In a cluster of one node, whose view holds no peer, an election timeout on a
  node that is neither stopped nor leader has no call to a peer among its effects and
  leaves the node LEADER, with the heartbeat timer reset and the election timer stopped.
\<close>

theorem executeElection_quorum:
  assumes "cluster n = Some c"
  shows "executeElection env n =
           Inr (n\<lparr>votedFor := Some (id_node n)\<rparr>,
                int (length (allNodes c)) div 2 + 1 \<le> spec_grants env n c,
                WriteVotedFor (Some (id_node n))
                  # map (\<lambda>rpcIf. Call (RequestVoteCall rpcIf (currentTerm n) (id_node n) 0 0))
                        (GetRemoteFollowers c (id_node n)))
         \<and> (length (allNodes c) = 1 \<and> clusterViewExcludesSelf c (id_node n)
              \<and> \<not> stopped n \<and> \<not> isLeader n
              \<and> validTransitions (statemachine n) = validTransitions NewStatemachine
            \<longrightarrow> electionTimeout env n =
                  Inr (n\<lparr>currentTerm := currentTerm n + 1,
                         votedFor := Some (id_node n),
                         statemachine := (statemachine n)\<lparr>current := LEADER\<rparr>,
                         heartbeatTimer := heartbeatTimer n @ [resetC],
                         electionTimer := electionTimer n @ [stopC]\<rparr>,
                       [WriteCurrentTerm (currentTerm n + 1), WriteRole CANDIDATE,
                        WriteVotedFor None, WriteVotedFor (Some (id_node n)),
                        WriteRole LEADER, SendHeartbeatTimer resetC,
                        SendElectionTimer stopC]))"
proof (intro conjI impI)
  show "executeElection env n =
           Inr (n\<lparr>votedFor := Some (id_node n)\<rparr>,
                int (length (allNodes c)) div 2 + 1 \<le> spec_grants env n c,
                WriteVotedFor (Some (id_node n))
                  # map (\<lambda>rpcIf. Call (RequestVoteCall rpcIf (currentTerm n) (id_node n) 0 0))
                        (GetRemoteFollowers c (id_node n)))"
    by (rule executeElection_eq [OF assms])
next
  assume h: "length (allNodes c) = 1 \<and> clusterViewExcludesSelf c (id_node n)
              \<and> \<not> stopped n \<and> \<not> isLeader n
              \<and> validTransitions (statemachine n) = validTransitions NewStatemachine"
  then have peers: "GetRemoteFollowers c (id_node n) = []"
    by (cases "GetRemoteFollowers c (id_node n)") (auto simp: clusterViewExcludesSelf_def)
  from h have nl: "\<not> isLeader n"
    and tab: "validTransitions (statemachine n) = validTransitions NewStatemachine"
    by simp_all
  show "electionTimeout env n =
                  Inr (n\<lparr>currentTerm := currentTerm n + 1,
                         votedFor := Some (id_node n),
                         statemachine := (statemachine n)\<lparr>current := LEADER\<rparr>,
                         heartbeatTimer := heartbeatTimer n @ [resetC],
                         electionTimer := electionTimer n @ [stopC]\<rparr>,
                       [WriteCurrentTerm (currentTerm n + 1), WriteRole CANDIDATE,
                        WriteVotedFor None, WriteVotedFor (Some (id_node n)),
                        WriteRole LEADER, SendHeartbeatTimer resetC,
                        SendElectionTimer stopC])"
    using h peers startElectionProcess_eq [OF nl tab assms, of env]
    by (simp add: electionTimeout_def spec_grants_def Let_def)
qed

theorem executeElection_quorum_witness:
  "cluster singleNode = Some singleCluster
   \<and> length (allNodes singleCluster) = 1
   \<and> clusterViewExcludesSelf singleCluster (id_node singleNode)
   \<and> \<not> stopped singleNode \<and> \<not> isLeader singleNode
   \<and> validTransitions (statemachine singleNode) = validTransitions NewStatemachine
   \<and> electionTimeout exampleEnv singleNode =
        Inr (singleNode\<lparr>currentTerm := 1, votedFor := Some 0,
                        statemachine := NewStatemachine\<lparr>current := LEADER\<rparr>,
                        heartbeatTimer := [resetC],
                        electionTimer := [resetC, stopC]\<rparr>,
             [WriteCurrentTerm 1, WriteRole CANDIDATE, WriteVotedFor None,
              WriteVotedFor (Some 0), WriteRole LEADER, SendHeartbeatTimer resetC,
              SendElectionTimer stopC])
   \<and> cluster exampleNode = Some exampleCluster
   \<and> executeElection exampleEnv exampleNode =
        Inr (exampleNode\<lparr>votedFor := Some 0\<rparr>, True,
             [WriteVotedFor (Some 0), Call (RequestVoteCall 1 0 0 0 0),
              Call (RequestVoteCall 2 0 0 0 0)])
   \<and> executeElection equalTermEnv (exampleNode\<lparr>id_node := 1\<rparr>) =
        Inr (exampleNode\<lparr>id_node := 1, votedFor := Some 1\<rparr>, False,
             [WriteVotedFor (Some 1), Call (RequestVoteCall 0 0 1 0 0),
              Call (RequestVoteCall 2 0 1 0 0)])"
  using executeElection_quorum [of singleNode singleCluster exampleEnv]
        executeElection_quorum [of exampleNode exampleCluster exampleEnv]
        executeElection_quorum [of "exampleNode\<lparr>id_node := 1\<rparr>" exampleCluster equalTermEnv]
  by (simp add: singleNode_eq exampleNode_eq singleCluster_def exampleCluster_def
                clusterViewExcludesSelf_def isLeader_def Current_def NewStatemachine_def
                spec_grants_def exampleEnv_def equalTermEnv_def)



section \<open>Heartbeat\<close>

lemma heartbeat_loop_follower:
  assumes "current (statemachine n) = FOLLOWER"
  shows "heartbeat_loop env n hs = Inr (n, heartbeatCalls n hs)"
  using assms
  by (induction hs) (auto simp: heartbeatCalls_def switchToFollower_follower split: prod.splits)

lemma heartbeat_loop_leader:
  assumes "validTransitions (statemachine n) = validTransitions NewStatemachine"
      and "current (statemachine n) = LEADER"
  shows "heartbeat_loop env n hs =
           Inr (if \<exists>h \<in> set hs. reportsGreaterTerm env n h
                then n\<lparr>heartbeatTimer := heartbeatTimer n @ [stopC],
                       statemachine := (statemachine n)\<lparr>current := FOLLOWER\<rparr>\<rparr>
                else n,
                heartbeatCalls n hs)"
  using assms
proof (induction hs)
  case Nil
  then show ?case by (simp add: heartbeatCalls_def)
next
  case (Cons h hs)
  let ?d = "n\<lparr>heartbeatTimer := heartbeatTimer n @ [stopC],
               statemachine := (statemachine n)\<lparr>current := FOLLOWER\<rparr>\<rparr>"
  obtain t ok where r: "peerAppendEntries env h (currentTerm n) (id_node n) 0 0 None 0 = (t, ok)"
    by (cases "peerAppendEntries env h (currentTerm n) (id_node n) 0 0 None 0")
  show ?case
  proof (cases "currentTerm n <s t")
    case True
    have f: "current (statemachine ?d) = FOLLOWER" by simp
    have c: "heartbeatCalls ?d hs = heartbeatCalls n hs"
      by (simp add: heartbeatCalls_def)
    show ?thesis
      using True r switchToFollower_leader [OF Cons.prems] heartbeat_loop_follower [OF f, of env hs] c
      by (simp add: reportsGreaterTerm_def heartbeatCalls_def)
  next
    case False
    then show ?thesis
      using r Cons by (simp add: reportsGreaterTerm_def heartbeatCalls_def)
  qed
qed

text \<open>
  Claim C6. In a heartbeat cycle of a started LEADER that is not stopped, if the reply
  of some peer of the cluster view reports a term greater than the leader's, the cycle
  ends with the role FOLLOWER and one stop signal sent to the heartbeat timer, which
  leaves that timer disarmed; the leader's own term is not changed, and every peer is
  still called.
\<close>

theorem heatbeatTimeout_greater_term_demotes:
  assumes "\<not> stopped n"
      and "Current (statemachine n) = LEADER"
      and "validTransitions (statemachine n) = validTransitions NewStatemachine"
      and "cluster n = Some c"
      and "\<exists>h \<in> set (GetRemoteFollowers c (id_node n)). reportsGreaterTerm env n h"
  shows "heatbeatTimeout env n =
           Inr (n\<lparr>heartbeatTimer := heartbeatTimer n @ [stopC],
                  statemachine := (statemachine n)\<lparr>current := FOLLOWER\<rparr>\<rparr>,
                heartbeatCalls n (GetRemoteFollowers c (id_node n)))
         \<and> \<not> armed (heartbeatTimer n @ [stopC])"
proof -
  have l: "current (statemachine n) = LEADER"
    using assms(2) by (simp add: Current_def)
  show ?thesis
    using assms(1,4,5) l heartbeat_loop_leader [OF assms(3) l, of env "GetRemoteFollowers c (id_node n)"]
    by (simp add: heatbeatTimeout_def isNotLeader_def Current_def armed_def)
qed

theorem heatbeatTimeout_greater_term_demotes_witness:
  "\<not> stopped exampleLeader
   \<and> Current (statemachine exampleLeader) = LEADER
   \<and> validTransitions (statemachine exampleLeader) = validTransitions NewStatemachine
   \<and> cluster exampleLeader = Some exampleCluster
   \<and> 2 \<in> set (GetRemoteFollowers exampleCluster (id_node exampleLeader))
   \<and> reportsGreaterTerm exampleEnv exampleLeader 2
   \<and> armed (heartbeatTimer exampleLeader)
   \<and> heatbeatTimeout exampleEnv exampleLeader =
        Inr (exampleLeader\<lparr>heartbeatTimer := [resetC, stopC],
                           statemachine := NewStatemachine\<lparr>current := FOLLOWER\<rparr>\<rparr>,
             [AppendEntriesCall 1 1 0 0 0 None 0, AppendEntriesCall 2 1 0 0 0 None 0])
   \<and> \<not> armed [resetC, stopC]"
  using heatbeatTimeout_greater_term_demotes [of exampleLeader exampleCluster exampleEnv]
  by (simp add: exampleLeader_eq exampleCluster_def exampleEnv_def reportsGreaterTerm_def
                Current_def NewStatemachine_def heartbeatCalls_def armed_def word_sless_alt)

section \<open>Terms reported during the fan-out\<close>

text \<open>
  Claim C9. The fan-out and the tally of \<open>executeElection\<close> read nothing but the
  grant flag of a reply. Two rounds whose replies carry the same grant flags have the
  same outcome and the same calls, whatever terms the replies report; in particular a
  reply with a greater term counts as the same reply with the candidate's term. The node
  leaves the round as it entered the fan-out: \<open>currentTerm\<close> and the role are those
  of the input, and \<open>votedFor\<close> is the node's own id, set by the first statement of
  \<open>executeElection\<close> before any call.
\<close>

theorem executeElection_ignores_reply_term:
  assumes "cluster n = Some c"
      and "\<forall>h \<in> set (GetRemoteFollowers c (id_node n)).
             snd (peerRequestVote env' h (currentTerm n) (id_node n) 0 0)
               = snd (peerRequestVote env h (currentTerm n) (id_node n) 0 0)"
  shows "executeElection env' n = executeElection env n
         \<and> (\<exists>electionWon calls.
               executeElection env n = Inr (n\<lparr>votedFor := Some (id_node n)\<rparr>, electionWon, calls))"
proof -
  have "filter (\<lambda>h. snd (peerRequestVote env' h (currentTerm n) (id_node n) 0 0))
               (GetRemoteFollowers c (id_node n))
        = filter (\<lambda>h. snd (peerRequestVote env h (currentTerm n) (id_node n) 0 0))
               (GetRemoteFollowers c (id_node n))"
    using assms(2) by (intro filter_cong) simp_all
  then have "spec_grants env' n c = spec_grants env n c"
    by (simp add: spec_grants_def)
  then show ?thesis
    by (simp add: executeElection_eq [OF assms(1)])
qed

theorem executeElection_ignores_reply_term_witness:
  "cluster exampleNode = Some exampleCluster
   \<and> GetRemoteFollowers exampleCluster (id_node exampleNode) = [1, 2]
   \<and> snd (peerRequestVote equalTermEnv 1 (currentTerm exampleNode) (id_node exampleNode) 0 0)
        = snd (peerRequestVote exampleEnv 1 (currentTerm exampleNode) (id_node exampleNode) 0 0)
   \<and> snd (peerRequestVote equalTermEnv 2 (currentTerm exampleNode) (id_node exampleNode) 0 0)
        = snd (peerRequestVote exampleEnv 2 (currentTerm exampleNode) (id_node exampleNode) 0 0)
   \<and> currentTerm exampleNode
        <s fst (peerRequestVote exampleEnv 1 (currentTerm exampleNode) (id_node exampleNode) 0 0)
   \<and> fst (peerRequestVote equalTermEnv 1 (currentTerm exampleNode) (id_node exampleNode) 0 0)
        = currentTerm exampleNode
   \<and> executeElection equalTermEnv exampleNode = executeElection exampleEnv exampleNode
   \<and> executeElection exampleEnv exampleNode =
        Inr (exampleNode\<lparr>votedFor := Some 0\<rparr>, True,
             [WriteVotedFor (Some 0), Call (RequestVoteCall 1 0 0 0 0),
              Call (RequestVoteCall 2 0 0 0 0)])"
proof -
  have a: "cluster exampleNode = Some exampleCluster"
    by (simp add: exampleNode_eq)
  have b: "\<forall>h \<in> set (GetRemoteFollowers exampleCluster (id_node exampleNode)).
         snd (peerRequestVote equalTermEnv h (currentTerm exampleNode) (id_node exampleNode) 0 0)
           = snd (peerRequestVote exampleEnv h (currentTerm exampleNode) (id_node exampleNode) 0 0)"
    by (simp add: exampleNode_eq exampleCluster_def exampleEnv_def equalTermEnv_def)
  have c: "executeElection exampleEnv exampleNode =
        Inr (exampleNode\<lparr>votedFor := Some 0\<rparr>, True,
             [WriteVotedFor (Some 0), Call (RequestVoteCall 1 0 0 0 0),
              Call (RequestVoteCall 2 0 0 0 0)])"
    using executeElection_eq [OF a, of exampleEnv]
    by (simp add: spec_grants_def exampleNode_eq exampleCluster_def exampleEnv_def)
  show ?thesis
    using a b c executeElection_ignores_reply_term [OF a b]
    by (simp add: exampleNode_eq exampleCluster_def exampleEnv_def equalTermEnv_def
                  word_sless_alt)
qed

section \<open>The RPC handlers\<close>

lemma RequestVote_example_grant:
  "RequestVote exampleNode 3 1 0 0 = Inr (exampleVoted, 3, True)"
  by (simp add: exampleNode_eq exampleVoted_eq RequestVote_def isCandidate_def isLeader_def
                Current_def NewStatemachine_def word_sless_alt)

lemma RequestVote_denies_when_voted:
  assumes "\<not> stopped n" and "votedFor n \<noteq> None" and "term = currentTerm n"
  shows "RequestVote n term candidateID lastLogIndex lastLogTerm
           = Inr (n\<lparr>electionTimer := electionTimer n @ [resetC]\<rparr>, currentTerm n, False)"
  using assms by (simp add: RequestVote_def Let_def)

lemma RequestVote_granted_state:
  assumes "RequestVote n term candidateID lastLogIndex lastLogTerm = Inr (n', t', True)"
  shows "\<not> stopped n' \<and> currentTerm n' = term \<and> votedFor n' = Some candidateID \<and> t' = term"
proof -
  from assms have ns: "\<not> stopped n"
    by (auto simp: RequestVote_def split: if_splits)
  from assms ns have nl: "\<not> term <s currentTerm n"
    by (auto simp: RequestVote_def Let_def split: if_splits)
  show ?thesis
  proof (cases "currentTerm n <s term")
    case True
    then show ?thesis
      using assms ns nl
      by (auto simp: RequestVote_def Let_def split: if_splits sum.splits
               dest!: switchToFollower_frame)
  next
    case False
    with nl have "term = currentTerm n" by (simp add: sless_antisym)
    then show ?thesis
      using assms ns nl False
      by (auto simp: RequestVote_def Let_def split: if_splits sum.splits)
  qed
qed

lemma RequestVote_granted_only_if:
  assumes "RequestVote n term candidateID lastLogIndex lastLogTerm = Inr (n', t', True)"
  shows "\<not> stopped n
         \<and> (currentTerm n <s term \<or> (term = currentTerm n \<and> votedFor n = None))"
proof -
  from assms have ns: "\<not> stopped n"
    by (auto simp: RequestVote_def split: if_splits)
  from assms ns have nl: "\<not> term <s currentTerm n"
    by (auto simp: RequestVote_def Let_def split: if_splits)
  show ?thesis
  proof (cases "currentTerm n <s term")
    case True
    with ns show ?thesis by simp
  next
    case False
    with nl have e: "term = currentTerm n" by (simp add: sless_antisym)
    with assms ns have "votedFor n = None"
      by (auto simp: RequestVote_def Let_def split: if_splits)
    with ns e show ?thesis by simp
  qed
qed

text \<open>
  Along a run, every operation keeps a vote once it is held, and the term only grows
  unless an election increments the largest \<open>int\<close>.
\<close>

lemma sless_succ:
  assumes "\<not> c <s T" and "sint (c::goint) \<noteq> 2 ^ 63 - 1"
  shows "\<not> (c + 1) <s T"
proof -
  have "sint c < 2 ^ 63" using sint_lt [of c] by simp
  with assms(2) have "sint c < 2 ^ 63 - 1" by simp
  from sint_succ [OF this] assms(1) show ?thesis by (simp add: word_sless_alt)
qed

lemma statemachine_Next_frame:
  assumes "statemachine_Next n nxt = Inr n'"
  shows "currentTerm n' = currentTerm n \<and> votedFor n' = votedFor n \<and> id_node n' = id_node n"
  using assms by (auto simp: statemachine_Next_def split: sum.splits)

lemma executeElection_frame:
  assumes "executeElection env n = Inr (n', won, calls)"
  shows "currentTerm n' = currentTerm n \<and> votedFor n' = Some (id_node n)"
  using assms by (auto simp: executeElection_def Let_def split: option.splits)

lemma switchToLeader_frame:
  assumes "switchToLeader n = Inr (n', effects)"
  shows "currentTerm n' = currentTerm n \<and> votedFor n' = votedFor n"
  using assms
  by (auto simp: switchToLeader_def Let_def split: sum.splits dest!: statemachine_Next_frame)

lemma startElectionProcess_frame:
  assumes "startElectionProcess env n = Inr (n', calls)"
  shows "currentTerm n' = currentTerm n + 1 \<and> votedFor n' = Some (id_node n)"
proof -
  from assms obtain n2 where a: "statemachine_Next (n\<lparr>currentTerm := currentTerm n + 1\<rparr>) CANDIDATE = Inr n2"
    by (auto simp: startElectionProcess_def Let_def split: sum.splits)
  from assms a obtain n4 won effectsElection
    where b: "executeElection env (n2\<lparr>votedFor := None\<rparr>) = Inr (n4, won, effectsElection)"
    by (auto simp: startElectionProcess_def Let_def split: sum.splits if_splits)
  from statemachine_Next_frame [OF a] have f2: "currentTerm n2 = currentTerm n + 1" "id_node n2 = id_node n"
    by simp_all
  from executeElection_frame [OF b] f2 have f4: "currentTerm n4 = currentTerm n + 1" "votedFor n4 = Some (id_node n)"
    by simp_all
  show ?thesis
  proof (cases won)
    case True
    with assms a b obtain effectsLeader where "switchToLeader n4 = Inr (n', effectsLeader)"
      by (auto simp: startElectionProcess_def Let_def split: sum.splits)
    with switchToLeader_frame [of n4 n' effectsLeader] f4 show ?thesis by simp
  next
    case False
    with assms a b obtain n5 where "statemachine_Next n4 FOLLOWER = Inr n5"
      "n' = n5\<lparr>electionTimer := electionTimer n5 @ [resetC]\<rparr>"
      by (auto simp: startElectionProcess_def Let_def split: sum.splits)
    with statemachine_Next_frame [of n4 FOLLOWER n5] f4 show ?thesis by simp
  qed
qed

lemma heartbeat_loop_frame:
  assumes "heartbeat_loop env n hs = Inr (n', calls)"
  shows "currentTerm n' = currentTerm n \<and> votedFor n' = votedFor n"
  using assms
proof (induction hs arbitrary: n calls)
  case Nil
  then show ?case by simp
next
  case (Cons h hs)
  obtain t ok where r: "peerAppendEntries env h (currentTerm n) (id_node n) 0 0 None 0 = (t, ok)"
    by (cases "peerAppendEntries env h (currentTerm n) (id_node n) 0 0 None 0")
  from Cons.prems r obtain n1 calls1 where
    s: "(if currentTerm n <s t then switchToFollower n else Inr n) = Inr n1"
    and l: "heartbeat_loop env n1 hs = Inr (n', calls1)"
    by (auto split: sum.splits)
  from s have "currentTerm n1 = currentTerm n \<and> votedFor n1 = votedFor n"
    by (auto split: if_splits dest!: switchToFollower_frame)
  with Cons.IH [OF l] show ?case by simp
qed

lemma deliver_keeps_vote:
  assumes "votedAtOrBefore n T" and "deliver n e = Inr n'" and "\<not> termIncrementWraps n e"
  shows "votedAtOrBefore n' T"
proof (cases e)
  case (EvRequestVote t c i l)
  with assms(2) obtain r where rv: "RequestVote n t c i l = Inr (n', r)"
    by (cases "RequestVote n t c i l") auto
  show ?thesis
  proof (cases "currentTerm n <s t")
    case True
    have nt: "\<not> t <s T"
      using True assms(1)
      by (metis signed.less_asym signed.less_trans votedAtOrBefore_def)
    from rv True nt assms(1) show ?thesis
      by (auto simp: RequestVote_def Let_def votedAtOrBefore_def
               split: if_splits sum.splits dest!: switchToFollower_frame)
  next
    case False
    with rv assms(1) show ?thesis
      by (auto simp: RequestVote_def Let_def votedAtOrBefore_def split: if_splits)
  qed
next
  case (EvAppendEntries t ld i p es lc)
  with assms(2) obtain r where ae: "AppendEntries n t ld i p es lc = Inr (n', r)"
    by (cases "AppendEntries n t ld i p es lc") auto
  show ?thesis
  proof (cases "currentTerm n <s t")
    case True
    have nt: "\<not> t <s T"
      using True assms(1)
      by (metis signed.less_asym signed.less_trans votedAtOrBefore_def)
    from ae True nt assms(1) show ?thesis
      by (auto simp: AppendEntries_def AppendEntries_deliver_def Let_def votedAtOrBefore_def
               split: if_splits sum.splits dest!: switchToFollower_frame)
  next
    case False
    with ae assms(1) show ?thesis
      by (auto simp: AppendEntries_def AppendEntries_deliver_def Let_def votedAtOrBefore_def
               split: if_splits)
  qed
next
  case (EvElectionTimeout env)
  with assms(2) obtain calls where et: "electionTimeout env n = Inr (n', calls)"
    by (cases "electionTimeout env n") auto
  show ?thesis
  proof (cases "stopped n")
    case True
    with et show ?thesis using assms(1) by (simp add: electionTimeout_def)
  next
    case False
    with et have "startElectionProcess env n = Inr (n', calls)"
      by (auto simp: electionTimeout_def split: if_splits)
    from startElectionProcess_frame [OF this] False assms(1,3) EvElectionTimeout
    show ?thesis
      by (simp add: votedAtOrBefore_def sless_succ)
  qed
next
  case (EvHeartbeatTimeout env)
  with assms(2) obtain calls where "heatbeatTimeout env n = Inr (n', calls)"
    by (cases "heatbeatTimeout env n") auto
  then show ?thesis
    using assms(1)
    by (auto simp: heatbeatTimeout_def votedAtOrBefore_def
             split: if_splits option.splits dest!: heartbeat_loop_frame)
next
  case (EvStart c)
  with assms(1,2) show ?thesis
    by (auto simp: Start_def Let_def votedAtOrBefore_def)
next
  case EvStop
  with assms(1,2) show ?thesis
    by (auto simp: Stop_def Let_def votedAtOrBefore_def dest!: statemachine_Next_frame)
qed

lemma run_keeps_vote:
  assumes "votedAtOrBefore n T" and "run n es = Inr n'" and "\<not> wraps n es"
  shows "votedAtOrBefore n' T"
  using assms
proof (induction es arbitrary: n)
  case Nil
  then show ?case by simp
next
  case (Cons e es)
  from Cons.prems(2) obtain n1 where d: "deliver n e = Inr n1" and r: "run n1 es = Inr n'"
    by (auto split: sum.splits)
  from Cons.prems(3) d have w: "\<not> termIncrementWraps n e" "\<not> wraps n1 es"
    by simp_all
  from deliver_keeps_vote [OF Cons.prems(1) d w(1)] Cons.IH [OF _ r w(2)]
  show ?case by simp
qed

lemma RequestVote_denied_after_vote:
  assumes "votedAtOrBefore n T"
  shows "RequestVote n T c i l =
           Inr (if stopped n then n else n\<lparr>electionTimer := electionTimer n @ [resetC]\<rparr>,
                currentTerm n, False)"
  using assms
  by (cases "T = currentTerm n")
     (auto simp: RequestVote_def Let_def votedAtOrBefore_def dest: sless_antisym)

lemma run_example:
  "run exampleVoted [EvElectionTimeout denyingEnv, EvAppendEntries 7 2 0 0 None 0]
     = Inr exampleLater
   \<and> \<not> wraps exampleVoted [EvElectionTimeout denyingEnv, EvAppendEntries 7 2 0 0 None 0]"
proof -
  have nl: "\<not> isLeader exampleVoted"
    by (simp add: exampleVoted_eq isLeader_def Current_def NewStatemachine_def)
  have tab: "validTransitions (statemachine exampleVoted) = validTransitions NewStatemachine"
    by (simp add: exampleVoted_eq)
  have cl: "cluster exampleVoted = Some exampleCluster"
    by (simp add: exampleVoted_eq)
  have e: "electionTimeout denyingEnv exampleVoted =
             Inr (exampleVoted\<lparr>currentTerm := 4, votedFor := Some 0,
                               electionTimer := [resetC, resetC, resetC]\<rparr>,
                  [WriteCurrentTerm 4, WriteRole CANDIDATE, WriteVotedFor None,
                   WriteVotedFor (Some 0),
                   Call (RequestVoteCall 1 4 0 0 0), Call (RequestVoteCall 2 4 0 0 0),
                   WriteRole FOLLOWER, SendElectionTimer resetC])"
    using startElectionProcess_eq [OF nl tab cl, of denyingEnv]
    by (simp add: electionTimeout_def exampleVoted_eq exampleCluster_def denyingEnv_def
                  isLeader_def Current_def NewStatemachine_def spec_grants_def Let_def)
  have a: "AppendEntries (exampleVoted\<lparr>currentTerm := 4, votedFor := Some 0,
                                       electionTimer := [resetC, resetC, resetC]\<rparr>)
             7 2 0 0 None 0 = Inr (exampleLater, 7, True)"
    by (simp add: exampleVoted_eq exampleLater_def exampleNode_eq AppendEntries_def
                  AppendEntries_deliver_def isLeader_def isCandidate_def Current_def
                  NewStatemachine_def)
  have s: "sint (currentTerm exampleVoted) \<noteq> 2 ^ 63 - 1"
    by (simp add: exampleVoted_eq)
  show ?thesis
    using s by (simp add: e a)
qed

text \<open>
  Claim C7, as the code has it. A node that is not stopped denies a \<open>RequestVote\<close>
  whose term equals its current term while \<open>votedFor\<close> is set: it answers its current
  term and false, and nothing changes but the reset sent to the election timer, so the
  vote is kept. A \<open>RequestVote\<close> is granted only to a greater term or, in the current
  term, when no vote is held; it leaves the node in the granted term with the vote
  recorded, so the next \<open>RequestVote\<close> for that term is denied, for the same candidate
  and for any other. The same holds after any run of RPCs, timer fires, starts and stops
  in which no election increments the largest \<open>int\<close>: short of that wrap-around a node
  never grants two votes in the same term.
\<close>

theorem RequestVote_one_vote_per_term_until_wrap:
  "(\<not> stopped n \<and> votedFor n \<noteq> None \<and> term = currentTerm n \<longrightarrow>
      RequestVote n term candidateID lastLogIndex lastLogTerm
        = Inr (n\<lparr>electionTimer := electionTimer n @ [resetC]\<rparr>, currentTerm n, False))
   \<and> (\<forall>n' t'. RequestVote n term candidateID lastLogIndex lastLogTerm = Inr (n', t', True) \<longrightarrow>
         \<not> stopped n
         \<and> (currentTerm n <s term \<or> (term = currentTerm n \<and> votedFor n = None))
         \<and> \<not> stopped n' \<and> currentTerm n' = term \<and> votedFor n' = Some candidateID
         \<and> t' = term
         \<and> (\<forall>c2 i2 l2.
               RequestVote n' term c2 i2 l2
                 = Inr (n'\<lparr>electionTimer := electionTimer n' @ [resetC]\<rparr>, term, False))
         \<and> (\<forall>es n2 c2 i2 l2.
               run n' es = Inr n2 \<and> \<not> wraps n' es \<longrightarrow>
               RequestVote n2 term c2 i2 l2
                 = Inr (if stopped n2 then n2
                        else n2\<lparr>electionTimer := electionTimer n2 @ [resetC]\<rparr>,
                        currentTerm n2, False)))"
proof (intro conjI allI impI)
  assume "\<not> stopped n \<and> votedFor n \<noteq> None \<and> term = currentTerm n"
  then show "RequestVote n term candidateID lastLogIndex lastLogTerm
               = Inr (n\<lparr>electionTimer := electionTimer n @ [resetC]\<rparr>, currentTerm n, False)"
    using RequestVote_denies_when_voted [of n "term" candidateID lastLogIndex lastLogTerm]
    by simp
next
  fix n' t'
  assume g: "RequestVote n term candidateID lastLogIndex lastLogTerm = Inr (n', t', True)"
  from RequestVote_granted_only_if [OF g]
  show "\<not> stopped n"
    and "currentTerm n <s term \<or> (term = currentTerm n \<and> votedFor n = None)"
    by simp_all
  from RequestVote_granted_state [OF g]
  show "\<not> stopped n'" "currentTerm n' = term" "votedFor n' = Some candidateID" "t' = term"
    by simp_all
next
  fix n' t' c2 i2 l2
  assume "RequestVote n term candidateID lastLogIndex lastLogTerm = Inr (n', t', True)"
  from RequestVote_granted_state [OF this]
  have "\<not> stopped n'" "votedFor n' \<noteq> None" "term = currentTerm n'" by simp_all
  from RequestVote_denies_when_voted [OF this, of c2 i2 l2]
  show "RequestVote n' term c2 i2 l2
          = Inr (n'\<lparr>electionTimer := electionTimer n' @ [resetC]\<rparr>, term, False)"
    using \<open>term = currentTerm n'\<close> by simp
next
  fix n' t' es n2 c2 i2 l2
  assume g: "RequestVote n term candidateID lastLogIndex lastLogTerm = Inr (n', t', True)"
    and r: "run n' es = Inr n2 \<and> \<not> wraps n' es"
  have "votedAtOrBefore n' term"
    using RequestVote_granted_state [OF g] by (simp add: votedAtOrBefore_def)
  with r have "votedAtOrBefore n2 term"
    using run_keeps_vote [of n' "term" es n2] by blast
  then show "RequestVote n2 term c2 i2 l2
               = Inr (if stopped n2 then n2
                      else n2\<lparr>electionTimer := electionTimer n2 @ [resetC]\<rparr>,
                      currentTerm n2, False)"
    by (rule RequestVote_denied_after_vote)
qed

theorem RequestVote_one_vote_per_term_until_wrap_witness:
  "RequestVote exampleNode 3 1 0 0 = Inr (exampleVoted, 3, True)
   \<and> \<not> stopped exampleVoted \<and> votedFor exampleVoted \<noteq> None \<and> 3 = currentTerm exampleVoted
   \<and> RequestVote exampleVoted 3 1 0 0
        = Inr (exampleVoted\<lparr>electionTimer := [resetC, resetC, resetC]\<rparr>, 3, False)
   \<and> RequestVote exampleVoted 3 2 0 0
        = Inr (exampleVoted\<lparr>electionTimer := [resetC, resetC, resetC]\<rparr>, 3, False)
   \<and> run exampleVoted [EvElectionTimeout denyingEnv, EvAppendEntries 7 2 0 0 None 0]
        = Inr exampleLater
   \<and> \<not> wraps exampleVoted [EvElectionTimeout denyingEnv, EvAppendEntries 7 2 0 0 None 0]
   \<and> RequestVote exampleLater 3 2 0 0
        = Inr (exampleLater\<lparr>electionTimer := [resetC, resetC, resetC, resetC, resetC]\<rparr>,
               7, False)"
proof -
  note t = RequestVote_one_vote_per_term_until_wrap [of exampleNode 3 1 0 0]
  from t RequestVote_example_grant
  have a: "\<And>c2 i2 l2. RequestVote exampleVoted 3 c2 i2 l2
             = Inr (exampleVoted\<lparr>electionTimer := electionTimer exampleVoted @ [resetC]\<rparr>,
                    3, False)"
    by blast
  from t RequestVote_example_grant
  have b: "\<And>es n2 c2 i2 l2. run exampleVoted es = Inr n2 \<and> \<not> wraps exampleVoted es \<Longrightarrow>
             RequestVote n2 3 c2 i2 l2
               = Inr (if stopped n2 then n2
                      else n2\<lparr>electionTimer := electionTimer n2 @ [resetC]\<rparr>,
                      currentTerm n2, False)"
    by blast
  show ?thesis
    using RequestVote_example_grant run_example a [of 1 0 0] a [of 2 0 0]
          b [OF run_example, of 2 0 0]
    by (simp add: exampleVoted_eq exampleLater_def exampleNode_eq)
qed

text \<open>
  At the wrap-around the last part fails, and with it the claim as the specification
  words it. Node 0 grants candidate 1 its vote for the largest term, loses the election
  of its next timeout, whose increment wraps to the smallest term, and then grants
  candidate 2 its vote for the largest term again: two votes in one term.
\<close>

theorem RequestVote_grants_twice_in_one_term:
  "RequestVote exampleNode 9223372036854775807 1 0 0
     = Inr (exampleVotedMax, 9223372036854775807, True)
   \<and> wraps exampleVotedMax [EvElectionTimeout denyingEnv]
   \<and> run exampleVotedMax [EvElectionTimeout denyingEnv] = Inr exampleWrapped
   \<and> sint (currentTerm exampleVotedMax) = 2 ^ 63 - 1
   \<and> sint (currentTerm exampleWrapped) = - (2 ^ 63)
   \<and> RequestVote exampleWrapped 9223372036854775807 2 0 0
        = Inr (exampleWrapped\<lparr>electionTimer := [resetC, resetC, resetC, resetC],
                               currentTerm := 9223372036854775807,
                               votedFor := Some 2\<rparr>,
               9223372036854775807, True)"
proof -
  have nl: "\<not> isLeader exampleVotedMax"
    by (simp add: exampleVotedMax_def exampleNode_eq isLeader_def Current_def
                  NewStatemachine_def)
  have tab: "validTransitions (statemachine exampleVotedMax) = validTransitions NewStatemachine"
    by (simp add: exampleVotedMax_def exampleNode_eq)
  have cl: "cluster exampleVotedMax = Some exampleCluster"
    by (simp add: exampleVotedMax_def exampleNode_eq)
  have g1: "RequestVote exampleNode 9223372036854775807 1 0 0
              = Inr (exampleVotedMax, 9223372036854775807, True)"
    by (simp add: exampleNode_eq exampleVotedMax_def RequestVote_def isCandidate_def
                  isLeader_def Current_def NewStatemachine_def word_sless_alt)
  have e: "map_sum id fst (electionTimeout denyingEnv exampleVotedMax) = Inr exampleWrapped"
    using startElectionProcess_eq [OF nl tab cl, of denyingEnv]
    by (simp add: electionTimeout_def exampleVotedMax_def exampleWrapped_def exampleNode_eq
                  exampleCluster_def denyingEnv_def isLeader_def Current_def
                  NewStatemachine_def spec_grants_def Let_def)
  have w: "sint (currentTerm exampleVotedMax) = 2 ^ 63 - 1"
    by (simp add: exampleVotedMax_def exampleNode_eq)
  have s: "\<not> stopped exampleVotedMax"
    by (simp add: exampleVotedMax_def exampleNode_eq)
  have g2: "RequestVote exampleWrapped 9223372036854775807 2 0 0
        = Inr (exampleWrapped\<lparr>electionTimer := [resetC, resetC, resetC, resetC],
                               currentTerm := 9223372036854775807,
                               votedFor := Some 2\<rparr>,
               9223372036854775807, True)"
    by (simp add: exampleWrapped_def exampleNode_eq RequestVote_def isCandidate_def
                  isLeader_def Current_def NewStatemachine_def word_sless_alt)
  have m: "sint (currentTerm exampleWrapped) = - (2 ^ 63)"
    by (simp add: exampleWrapped_def exampleNode_eq)
  show ?thesis
    using g1 e w s g2 m by simp
qed

text \<open>
  Claim C8. A node that is not stopped answers an \<open>AppendEntries\<close> whose term is less
  than its current term with its own term and false, and the node is returned as it was:
  no signal goes to the election timer, and \<open>currentTerm\<close>, \<open>votedFor\<close> and the role
  are unchanged.
\<close>

theorem AppendEntries_stale_term_rejected:
  assumes "\<not> stopped n" and "term <s currentTerm n"
  shows "AppendEntries n term leaderID prevLogIndex prevLogTermin entries leaderCommit
           = Inr (n, currentTerm n, False)"
  using assms by (simp add: AppendEntries_def)

theorem AppendEntries_stale_term_rejected_witness:
  "\<not> stopped exampleVoted \<and> 2 <s currentTerm exampleVoted
   \<and> AppendEntries exampleVoted 2 2 0 0 None 0 = Inr (exampleVoted, 3, False)"
  using AppendEntries_stale_term_rejected [of exampleVoted 2 2 0 0 None 0]
  by (simp add: exampleVoted_eq)

text \<open>
  Claim C10. A node that is not stopped and is FOLLOWER, so that it passes the term
  reconciliation without the early reply of a demoted LEADER or CANDIDATE, answers an
  \<open>AppendEntries\<close> whose term is not less than its own and whose \<open>entries\<close> are not
  empty with true and its current term, which is the term of the call. The answer is the
  same for every replicated log, previous log index and term, leader id and commit
  index, and the node changes in \<open>currentTerm\<close> only: no signal goes to the election
  timer.
\<close>

theorem AppendEntries_entries_always_succeed:
  assumes "\<not> stopped n"
      and "Current (statemachine n) = FOLLOWER"
      and "\<not> term <s currentTerm n"
      and "entries = Some es" and "es \<noteq> []"
  shows "AppendEntries n term leaderID prevLogIndex prevLogTermin entries leaderCommit
           = Inr (n\<lparr>currentTerm := term\<rparr>, term, True)"
proof (cases "currentTerm n <s term")
  case True
  then show ?thesis
    using assms
    by (simp add: AppendEntries_def Let_def AppendEntries_deliver_def isLeader_def
                  isCandidate_def Current_def)
next
  case False
  with assms(3) have "term = currentTerm n" by (simp add: sless_antisym)
  then show ?thesis
    using assms False
    by (simp add: AppendEntries_def Let_def AppendEntries_deliver_def)
qed

theorem AppendEntries_entries_always_succeed_witness:
  "\<not> stopped exampleVoted \<and> Current (statemachine exampleVoted) = FOLLOWER
   \<and> \<not> 4 <s currentTerm exampleVoted
   \<and> AppendEntries exampleVoted 4 2 7 1 (Some [''set x 1'']) 9
        = Inr (exampleVoted\<lparr>currentTerm := 4\<rparr>, 4, True)
   \<and> electionTimer (exampleVoted\<lparr>currentTerm := 4\<rparr>) = electionTimer exampleVoted"
  using AppendEntries_entries_always_succeed
          [of exampleVoted 4 "Some [''set x 1'']" "[''set x 1'']" 2 7 1 9]
  by (simp add: exampleVoted_eq Current_def NewStatemachine_def)

section \<open>Stale votes and stopping\<close>

text \<open>
  Claim C2. \<open>startElectionProcess\<close> clears \<open>votedFor\<close> after incrementing the term.
  \<open>AppendEntries\<close> does not: node 0, a FOLLOWER that voted for candidate 1 in term 3,
  adopts term 5 from a heartbeat of leader 2 and keeps the vote of term 3, so that it
  then denies the request of candidate 2 for term 5, a term in which it has cast no vote.
\<close>

theorem AppendEntries_keeps_vote_of_older_term:
  "RequestVote exampleNode 3 1 0 0 = Inr (exampleVoted, 3, True)
   \<and> AppendEntries exampleVoted 5 2 0 0 None 0
        = Inr (exampleVoted\<lparr>electionTimer := [resetC, resetC, resetC], currentTerm := 5\<rparr>,
               5, True)
   \<and> votedFor (exampleVoted\<lparr>electionTimer := [resetC, resetC, resetC], currentTerm := 5\<rparr>)
        = Some 1
   \<and> RequestVote (exampleVoted\<lparr>electionTimer := [resetC, resetC, resetC], currentTerm := 5\<rparr>)
        5 2 0 0
        = Inr (exampleVoted\<lparr>electionTimer := [resetC, resetC, resetC, resetC],
                             currentTerm := 5\<rparr>, 5, False)"
  by (simp add: RequestVote_example_grant)
     (simp add: exampleVoted_eq AppendEntries_def AppendEntries_deliver_def RequestVote_def
                isCandidate_def isLeader_def Current_def NewStatemachine_def word_sless_alt)

lemma Stop_leader_or_candidate:
  assumes "validTransitions (statemachine n) = validTransitions NewStatemachine"
      and "current (statemachine n) \<noteq> FOLLOWER"
  shows "Stop n = Inr (n\<lparr>stopped := True,
                         heartbeatTimer := heartbeatTimer n @ [stopC],
                         electionTimer := electionTimer n @ [stopC],
                         statemachine := (statemachine n)\<lparr>current := FOLLOWER\<rparr>\<rparr>)"
proof -
  let ?n3 = "n\<lparr>stopped := True, heartbeatTimer := heartbeatTimer n @ [stopC],
               electionTimer := electionTimer n @ [stopC]\<rparr>"
  have "spec_legal (current (statemachine ?n3)) FOLLOWER"
    using assms(2) by (cases "current (statemachine n)") simp_all
  from statemachine_Next_ok [OF _ this] assms(1)
  show ?thesis by (simp add: Stop_def)
qed

lemma Stop_follower:
  assumes "validTransitions (statemachine n) = validTransitions NewStatemachine"
      and "current (statemachine n) = FOLLOWER"
  shows "Stop n = Inl (StateChangeNotAllowed FOLLOWER FOLLOWER)"
proof -
  let ?n3 = "n\<lparr>stopped := True, heartbeatTimer := heartbeatTimer n @ [stopC],
               electionTimer := electionTimer n @ [stopC]\<rparr>"
  have "\<not> spec_legal (current (statemachine ?n3)) FOLLOWER"
    using assms(2) by simp
  from statemachine_Next_bad [OF _ this] assms
  show ?thesis by (simp add: Stop_def)
qed

lemma stopped_node_is_inert:
  assumes "stopped n"
  shows "electionTimeout env n = Inr (n, [])"
    and "heatbeatTimeout env n = Inr (n, [])"
    and "RequestVote n term candidateID lastLogIndex lastLogTerm = Inr (n, currentTerm n, False)"
    and "AppendEntries n term leaderID prevLogIndex prevLogTermin entries leaderCommit
           = Inr (n, currentTerm n, False)"
  using assms
  by (simp_all add: electionTimeout_def heatbeatTimeout_def RequestVote_def AppendEntries_def)

text \<open>
  Claim C3. On a LEADER or a CANDIDATE, \<open>Stop\<close> sets \<open>stopped\<close>, sends a stop signal
  to both timers and moves the role to FOLLOWER, and a stopped node answers every timer
  fire and RPC without changing (\<open>Stop_leader_or_candidate\<close>,
  \<open>stopped_node_is_inert\<close>). On a FOLLOWER it does not: node 0, just started, is
  FOLLOWER, and \<open>Stop\<close> panics in \<open>Next\<close>, because FOLLOWER to FOLLOWER is not in
  \<open>validTransitions\<close>.
\<close>

theorem Stop_on_follower_panics:
  "Current (statemachine exampleNode) = FOLLOWER
   \<and> Stop exampleNode = Inl (StateChangeNotAllowed FOLLOWER FOLLOWER)"
  by (simp add: exampleNode_eq Stop_def statemachine_Next_def Next_def isValid_def
                NewStatemachine_def Current_def)

end
